theory Spec2Isabelle
  imports Main "HOL-Library.Word"
begin

unbundle bit_operations_syntax

section \<open>Common types\<close>

type_synonym byte = "8 word"

text \<open>
  The error values of the packages \<open>ihex\<close>, \<open>protocol\<close>, \<open>n76\<close> and \<open>cmd\<close>, and the
  errors of the byte sources and sinks they read and write (\<open>io.EOF\<close>, a failed read or
  write of the transport or of a file).
\<close>

datatype error =
    ErrInvalidPrefix
  | ErrInvalidHex
  | ErrInvalidEOL
  | ErrInvalidChecksum
  | ErrInvalidRecordLength
  | io_EOF
  | ErrSink
  | ErrFrameLengthIncorrect
  | ErrBodyLengthTooLong
  | ErrTooShortForCommand
  | ErrWriteSizeIncorrect
  | ErrReadSizeIncorrect
  | ErrSequenceNumberIncorrect
  | ErrTransport
  | ErrConfigTooShort
  | ErrUsage string
  | ErrOpen string
  | ErrOutOfRange string

text \<open>
  A Go call either returns or panics (an index out of range, an explicit \<open>panic\<close>).
\<close>

datatype 'a outcome = Returned 'a | Panicked

section \<open>protocol/frame.go\<close>

type_synonym V1Frame = "byte list"

definition SequenceNumber :: "V1Frame \<Rightarrow> byte outcome" where
  "SequenceNumber f = (if 0 < length f then Returned (f ! 0) else Panicked)"

definition BodyLength :: "V1Frame \<Rightarrow> nat outcome" where
  "BodyLength f = (if 1 < length f then Returned (unat (f ! 1)) else Panicked)"

text \<open>\<open>f[2:reqLen]\<close> panics unless \<open>2 \<le> reqLen\<close> and \<open>reqLen\<close> is within the slice.\<close>

definition Body :: "V1Frame \<Rightarrow> byte list outcome" where
  "Body f =
     (case BodyLength f of
        Panicked \<Rightarrow> Panicked
      | Returned n \<Rightarrow>
          (let reqLen = 2 + n
           in if reqLen \<le> length f then Returned (drop 2 (take reqLen f)) else Panicked))"

definition Uint32 :: "byte list \<Rightarrow> 32 word" where
  "Uint32 b =
     ucast (b ! 0) OR push_bit 8 (ucast (b ! 1)) OR push_bit 16 (ucast (b ! 2))
       OR push_bit 24 (ucast (b ! 3))"

definition Command :: "V1Frame \<Rightarrow> (error + 32 word) outcome" where
  "Command f =
     (case Body f of
        Panicked \<Rightarrow> Panicked
      | Returned body \<Rightarrow>
          (if length body < 4 then Returned (Inl ErrTooShortForCommand)
           else Returned (Inr (Uint32 body))))"

definition Bytes :: "V1Frame \<Rightarrow> byte list" where
  "Bytes f = f"

definition FrameLength :: nat where
  "FrameLength = 64"

definition MaxBodyLength :: nat where
  "MaxBodyLength = 62"

text \<open>\<open>copy(buf[2:], body)\<close> on the zero-filled 64-byte buffer.\<close>

definition Frame :: "byte \<Rightarrow> byte list \<Rightarrow> error + V1Frame" where
  "Frame seqno body =
     (if length body > 62 then Inl ErrBodyLengthTooLong
      else Inr ([seqno, of_nat (length body)] @ body @ replicate (62 - length body) 0))"

definition Unframe :: "byte list \<Rightarrow> error + V1Frame" where
  "Unframe pkg =
     (if length pkg \<noteq> 64 then Inl ErrFrameLengthIncorrect
      else if pkg ! 1 > 62 then Inl ErrBodyLengthTooLong
      else Inr pkg)"

section \<open>protocol/device.go\<close>

text \<open>
  The transport delivers one event for each \<open>Read\<close> and takes one for each \<open>Write\<close>: a
  read either fails or fills the buffer with some bytes, a write either fails or reports
  how many bytes it took. A transport with no event left reports an error.
\<close>

datatype read_event = ReadFailed | ReadBytes "byte list"

datatype write_event = WriteFailed | WriteCount nat

record Device =
  seqNo :: byte
  incoming :: "read_event list"
  accepting :: "write_event list"
  sent :: "byte list list"

text \<open>The device a successful \<open>Connect\<close> hands out: \<open>seqNo: 0\<close>.\<close>

definition Connect :: "read_event list \<Rightarrow> write_event list \<Rightarrow> Device" where
  "Connect rs ws = \<lparr>seqNo = 0, incoming = rs, accepting = ws, sent = []\<rparr>"

text \<open>The variant over \<open>karalabe/hid\<close>.\<close>

definition nextSequenceNumber :: "Device \<Rightarrow> byte \<times> Device" where
  "nextSequenceNumber d =
     (let d1 = d\<lparr>seqNo := seqNo d + 1\<rparr>;
          d2 = (if seqNo d1 \<ge> 0x80 then d1\<lparr>seqNo := 1\<rparr> else d1)
      in (seqNo d2, d2))"

text \<open>The variant over \<open>google/gousb\<close>.\<close>

definition nextSequenceNumber_gousb :: "Device \<Rightarrow> byte \<times> Device" where
  "nextSequenceNumber_gousb d =
     (let d1 = d\<lparr>seqNo := seqNo d + 1\<rparr>;
          d2 = (if seqNo d1 \<ge> 0x80 then d1\<lparr>seqNo := 0\<rparr> else d1)
      in (seqNo d2, d2))"

definition transport_Write :: "Device \<Rightarrow> byte list \<Rightarrow> (error + nat) \<times> Device" where
  "transport_Write d msg =
     (case accepting d of
        [] \<Rightarrow> (Inl ErrTransport, d)
      | WriteFailed # ws \<Rightarrow> (Inl ErrTransport, d\<lparr>accepting := ws\<rparr>)
      | WriteCount l # ws \<Rightarrow>
          (Inr l, d\<lparr>accepting := ws, sent := sent d @ [take l msg]\<rparr>))"

definition Send_with ::
  "(Device \<Rightarrow> byte \<times> Device) \<Rightarrow> Device \<Rightarrow> byte list \<Rightarrow> error option \<times> Device" where
  "Send_with next d body =
     (case next d of
        (seqNum, d1) \<Rightarrow>
          (case Frame seqNum body of
             Inl e \<Rightarrow> (Some e, d1)
           | Inr msg \<Rightarrow>
               (case transport_Write d1 (Bytes msg) of
                  (Inl e, d2) \<Rightarrow> (Some e, d2)
                | (Inr l, d2) \<Rightarrow>
                    (if l \<noteq> length (Bytes msg) then (Some ErrWriteSizeIncorrect, d2)
                     else (None, d2)))))"

definition Send :: "Device \<Rightarrow> byte list \<Rightarrow> error option \<times> Device" where
  "Send = Send_with nextSequenceNumber"

definition Send_gousb :: "Device \<Rightarrow> byte list \<Rightarrow> error option \<times> Device" where
  "Send_gousb = Send_with nextSequenceNumber_gousb"

text \<open>
  One pass of the body of the loop of \<open>Receive\<close> up to the comparison of the sequence
  numbers: the read, the check of its size and \<open>Unframe\<close>. A read of the full length
  overwrites the whole of \<open>inBuf\<close>, so the buffer is the bytes read.
\<close>

definition read_frame :: "Device \<Rightarrow> (error + V1Frame) \<times> Device" where
  "read_frame d =
     (case incoming d of
        [] \<Rightarrow> (Inl ErrTransport, d)
      | ReadFailed # rs \<Rightarrow> (Inl ErrTransport, d\<lparr>incoming := rs\<rparr>)
      | ReadBytes bs # rs \<Rightarrow>
          (if length bs \<noteq> FrameLength then (Inl ErrReadSizeIncorrect, d\<lparr>incoming := rs\<rparr>)
           else (Unframe bs, d\<lparr>incoming := rs\<rparr>)))"

text \<open>
  The loop of \<open>Receive\<close> (hid variant), entered with \<open>attempt\<close> mismatches counted so
  far. \<open>Receive\<close> enters it with 0 and it leaves at the fifth mismatch, so
  \<open>5 - attempt\<close> decreases; the last branch of the count (a count already beyond 5) is
  never reached from \<open>Receive\<close>.
\<close>

function Receive_loop :: "nat \<Rightarrow> Device \<Rightarrow> (error + byte list) outcome \<times> Device" where
  "Receive_loop attempt d =
     (case read_frame d of
        (Inl e, d1) \<Rightarrow> (Returned (Inl e), d1)
      | (Inr respf, d1) \<Rightarrow>
          (case SequenceNumber respf of
             Panicked \<Rightarrow> (Panicked, d1)
           | Returned s \<Rightarrow>
               (if s \<noteq> seqNo d1 then
                  (if Suc attempt = 5 then (Returned (Inl ErrSequenceNumberIncorrect), d1)
                   else if Suc attempt < 5 then Receive_loop (Suc attempt) d1
                   else (Returned (Inl ErrSequenceNumberIncorrect), d1))
                else
                  (case Body respf of
                     Panicked \<Rightarrow> (Panicked, d1)
                   | Returned b \<Rightarrow> (Returned (Inr b), d1)))))"
  by pat_completeness auto
termination
  by (relation "measure (\<lambda>(attempt, d). 5 - attempt)") auto

declare Receive_loop.simps [simp del]

definition Receive :: "Device \<Rightarrow> (error + byte list) outcome \<times> Device" where
  "Receive d = Receive_loop 0 d"

definition Receive_gousb :: "Device \<Rightarrow> (error + byte list) outcome \<times> Device" where
  "Receive_gousb d =
     (case read_frame d of
        (Inl e, d1) \<Rightarrow> (Returned (Inl e), d1)
      | (Inr respf, d1) \<Rightarrow>
          (case SequenceNumber respf of
             Panicked \<Rightarrow> (Panicked, d1)
           | Returned s \<Rightarrow>
               (if s \<noteq> seqNo d1 then (Returned (Inl ErrSequenceNumberIncorrect), d1)
                else
                  (case Body respf of
                     Panicked \<Rightarrow> (Panicked, d1)
                   | Returned b \<Rightarrow> (Returned (Inr b), d1)))))"

text \<open>The sequence numbers that \<open>n\<close> successive sends allocate.\<close>

fun allocated :: "(Device \<Rightarrow> byte \<times> Device) \<Rightarrow> nat \<Rightarrow> Device \<Rightarrow> byte list" where
  "allocated next 0 d = []"
| "allocated next (Suc n) d = (case next d of (s, d1) \<Rightarrow> s # allocated next n d1)"

text \<open>
  A well-formed frame that answers another request than the last one sent: \<open>Unframe\<close>
  accepts it, and its sequence number is not \<open>s\<close>.
\<close>

fun stale :: "byte \<Rightarrow> byte list \<Rightarrow> bool" where
  "stale s f = (length f = 64 \<and> f ! 1 \<le> 62 \<and> f ! 0 \<noteq> s)"

section \<open>target/n76/n76e003.go\<close>

definition BootFromLDROM :: "64 word" where "BootFromLDROM = 0"
definition BootFromAPROM :: "64 word" where "BootFromAPROM = 1"

definition N76E003LDROM0KB :: byte where "N76E003LDROM0KB = 0"
definition N76E003LDROM1KB :: byte where "N76E003LDROM1KB = 1"
definition N76E003LDROM2KB :: byte where "N76E003LDROM2KB = 2"
definition N76E003LDROM3KB :: byte where "N76E003LDROM3KB = 3"
definition N76E003LDROM4KB :: byte where "N76E003LDROM4KB = 4"

definition BODVoltage4v4 :: byte where "BODVoltage4v4 = 0"
definition BODVoltage3v7 :: byte where "BODVoltage3v7 = 1"
definition BODVoltage2v7 :: byte where "BODVoltage2v7 = 2"
definition BODVoltage2v2 :: byte where "BODVoltage2v2 = 3"

definition WDTDisabled :: byte where "WDTDisabled = 0"
definition WDTEnabled :: byte where "WDTEnabled = 1"
definition WDTEnabledAlways :: byte where "WDTEnabledAlways = 2"

record N76E003Config =
  BootSelect :: "64 word"
  PWMEnabledDuringOCD :: bool
  OCDEnabled :: bool
  ResetPinDisabled :: bool
  Locked :: bool
  LDROMSize :: byte
  BODDisabled :: bool
  BODVoltage :: byte
  IAPEnabledInBrownout :: bool
  BODResetDisabled :: bool
  WDT :: byte

text \<open>\<open>new(N76E003Config)\<close> and \<open>var newCfg N76E003Config\<close>: every field zero.\<close>

definition NewConfig :: N76E003Config where
  "NewConfig =
     \<lparr>BootSelect = 0, PWMEnabledDuringOCD = False, OCDEnabled = False,
      ResetPinDisabled = False, Locked = False, LDROMSize = 0, BODDisabled = False,
      BODVoltage = 0, IAPEnabledInBrownout = False, BODResetDisabled = False, WDT = 0\<rparr>"

definition UnmarshalBinary :: "N76E003Config \<Rightarrow> byte list \<Rightarrow> error + N76E003Config" where
  "UnmarshalBinary cfg buf =
     (if length buf < 4 then Inl ErrConfigTooShort
      else
        (let cfg = cfg\<lparr>BootSelect := BootFromAPROM\<rparr>;
             cfg = (if buf ! 0 AND 0x80 = 0 then cfg\<lparr>BootSelect := BootFromLDROM\<rparr> else cfg);
             cfg = cfg\<lparr>PWMEnabledDuringOCD := (buf ! 0 AND 0x20 = 0)\<rparr>;
             cfg = cfg\<lparr>OCDEnabled := (buf ! 0 AND 0x10 = 0)\<rparr>;
             cfg = cfg\<lparr>ResetPinDisabled := (buf ! 0 AND 0x04 = 0)\<rparr>;
             cfg = cfg\<lparr>Locked := (buf ! 0 AND 0x02 = 0)\<rparr>;
             cfg = cfg\<lparr>LDROMSize :=
                     (let sel = buf ! 1 AND 0x7
                      in if sel = 7 then N76E003LDROM0KB
                         else if sel = 6 then N76E003LDROM1KB
                         else if sel = 5 then N76E003LDROM2KB
                         else if sel = 4 then N76E003LDROM3KB
                         else N76E003LDROM4KB)\<rparr>;
             cfg = cfg\<lparr>BODDisabled := (buf ! 2 AND 0x80 = 0)\<rparr>;
             cfg = cfg\<lparr>BODVoltage :=
                     (let cov = drop_bit 4 (buf ! 2) AND 0x3
                      in if cov = 0 then BODVoltage4v4
                         else if cov = 1 then BODVoltage3v7
                         else if cov = 2 then BODVoltage2v7
                         else BODVoltage2v2)\<rparr>;
             cfg = cfg\<lparr>IAPEnabledInBrownout := (buf ! 2 AND 0x08 = 0)\<rparr>;
             cfg = cfg\<lparr>BODResetDisabled := (buf ! 2 AND 0x04 = 0)\<rparr>;
             cfg = cfg\<lparr>WDT :=
                     (let wdten = drop_bit 4 (buf ! 3)
                      in if wdten = 0xF then WDTDisabled
                         else if wdten = 0x5 then WDTEnabled
                         else WDTEnabledAlways)\<rparr>
         in Inr cfg))"

text \<open>
  The statements \<open>buf[i] &= m\<close> and \<open>buf[i] = v\<close> on the eight-byte buffer of
  \<open>MarshalBinary\<close>; an \<open>if\<close> without \<open>else\<close> and a \<open>switch\<close> without a matching
  case leave the buffer as it is (\<open>id\<close>).
\<close>

definition and_at :: "nat \<Rightarrow> byte \<Rightarrow> byte list \<Rightarrow> byte list" where
  "and_at i m buf = buf[i := buf ! i AND m]"

definition set_at :: "nat \<Rightarrow> byte \<Rightarrow> byte list \<Rightarrow> byte list" where
  "set_at i v buf = buf[i := v]"

text \<open>The eight bytes that \<open>MarshalBinary\<close> has built when it reaches its sense check.\<close>

definition MarshalBinary_buf :: "N76E003Config \<Rightarrow> byte list" where
  "MarshalBinary_buf cfg =
     (let buf = replicate 8 (0xFF :: byte);
          buf = (if BootSelect cfg = BootFromLDROM then and_at 0 0x7F else id) buf;
          buf = (if PWMEnabledDuringOCD cfg then and_at 0 0xDF else id) buf;
          buf = (if OCDEnabled cfg then and_at 0 0xEF else id) buf;
          buf = (if ResetPinDisabled cfg then and_at 0 0xFB else id) buf;
          buf = (if Locked cfg then and_at 0 0xFD else id) buf;
          buf = (if LDROMSize cfg = N76E003LDROM0KB then set_at 1 0xFF
                 else if LDROMSize cfg = N76E003LDROM1KB then set_at 1 0xFE
                 else if LDROMSize cfg = N76E003LDROM2KB then set_at 1 0xFD
                 else if LDROMSize cfg = N76E003LDROM3KB then set_at 1 0xFC
                 else if LDROMSize cfg = N76E003LDROM4KB then set_at 1 0xFB
                 else id) buf;
          buf = (if BODDisabled cfg then and_at 2 0x7F else id) buf;
          buf = (if BODVoltage cfg = BODVoltage4v4 then and_at 2 0xCF
                 else if BODVoltage cfg = BODVoltage3v7 then and_at 2 0xDF
                 else if BODVoltage cfg = BODVoltage2v7 then and_at 2 0xEF
                 else if BODVoltage cfg = BODVoltage2v2 then and_at 2 0xFF
                 else id) buf;
          buf = (if IAPEnabledInBrownout cfg then and_at 2 0xF7 else id) buf;
          buf = (if BODResetDisabled cfg then and_at 2 0xFB else id) buf;
          buf = (if WDT cfg = WDTDisabled then set_at 3 0xFF
                 else if WDT cfg = WDTEnabled then set_at 3 0x5F
                 else if WDT cfg = WDTEnabledAlways then set_at 3 0x0F
                 else id) buf
      in buf)"

definition MarshalBinary :: "N76E003Config \<Rightarrow> (error + byte list) outcome" where
  "MarshalBinary cfg =
     (let buf = MarshalBinary_buf cfg
      in case UnmarshalBinary NewConfig buf of
           Inl e \<Rightarrow> Returned (Inl e)
         | Inr newCfg \<Rightarrow> (if newCfg \<noteq> cfg then Panicked else Returned (Inr buf)))"

definition GetLDROMSize :: "N76E003Config \<Rightarrow> 64 word outcome" where
  "GetLDROMSize c =
     (if LDROMSize c = N76E003LDROM0KB then Returned 0
      else if LDROMSize c = N76E003LDROM1KB then Returned 1024
      else if LDROMSize c = N76E003LDROM2KB then Returned 2048
      else if LDROMSize c = N76E003LDROM3KB then Returned 3072
      else if LDROMSize c = N76E003LDROM4KB then Returned 4096
      else Panicked)"

text \<open>Every enumeration field holds one of the values its type declares.\<close>

definition defined_values :: "N76E003Config \<Rightarrow> bool" where
  "defined_values c =
     ((BootSelect c = BootFromLDROM \<or> BootSelect c = BootFromAPROM)
      \<and> LDROMSize c \<le> N76E003LDROM4KB
      \<and> BODVoltage c \<le> BODVoltage2v2
      \<and> WDT c \<le> WDTEnabledAlways)"

section \<open>target/target.go\<close>

text \<open>
  A target definition with its configuration space. \<open>uint\<close> is 64 bits wide. The one
  registered target creates \<open>N76E003Config\<close> values, so \<open>NewConfig\<close> is that
  constructor.
\<close>

record Definition =
  Name :: string
  Family :: "32 word"
  DeviceID :: "32 word"
  ProgMemSize :: "64 word"
  LDROMOffset :: "64 word"
  IHexOffset :: "32 word"
  MinSize :: "64 word"
  ReadSize :: byte
  WriteSize :: byte

definition N76E003 :: Definition where
  "N76E003 =
     \<lparr>Name = ''N76E003'', Family = 0x800, DeviceID = 0xDA3650,
      ProgMemSize = 12 * 1024, LDROMOffset = 0x3800,
      IHexOffset = 0x30000, MinSize = 4, ReadSize = 8, WriteSize = 32\<rparr>"

text \<open>\<open>ConfigSpace.Decode\<close>: a new configuration object, unmarshalled from the bytes.\<close>

definition Decode :: "Definition \<Rightarrow> byte list \<Rightarrow> error + N76E003Config" where
  "Decode td buf = UnmarshalBinary NewConfig buf"

section \<open>cmd/target\_data.go\<close>

record TargetData =
  TargetDefinition :: Definition
  Config_td :: "byte list"
  Data_td :: "byte list"

definition NewTargetData :: "Definition \<Rightarrow> TargetData" where
  "NewTargetData td =
     \<lparr>TargetDefinition = td, Config_td = [],
      Data_td = replicate (unat (ProgMemSize td)) 0xFF\<rparr>"

text \<open>\<open>d.Data[:size]\<close> panics when \<open>size\<close> is beyond the slice.\<close>

definition APROM :: "TargetData \<Rightarrow> (error + byte list) outcome" where
  "APROM d =
     (case Decode (TargetDefinition d) (Config_td d) of
        Inl e \<Rightarrow> Returned (Inl e)
      | Inr cfg \<Rightarrow>
          (case GetLDROMSize cfg of
             Panicked \<Rightarrow> Panicked
           | Returned l \<Rightarrow>
               (let size = ProgMemSize (TargetDefinition d) - l
                in if unat size \<le> length (Data_td d)
                   then Returned (Inr (take (unat size) (Data_td d)))
                   else Panicked)))"

definition LDROM :: "TargetData \<Rightarrow> (error + byte list) outcome" where
  "LDROM d =
     (case Decode (TargetDefinition d) (Config_td d) of
        Inl e \<Rightarrow> Returned (Inl e)
      | Inr cfg \<Rightarrow>
          (case GetLDROMSize cfg of
             Panicked \<Rightarrow> Panicked
           | Returned l \<Rightarrow>
               (let apsize = ProgMemSize (TargetDefinition d) - l
                in if unat apsize \<noteq> length (Data_td d)
                   then (if unat apsize \<le> length (Data_td d)
                         then Returned (Inr (drop (unat apsize) (Data_td d)))
                         else Panicked)
                   else Returned (Inr []))))"

section \<open>ihex/ihex.go\<close>

text \<open>The \<open>PacketType\<close> values, in the order of the \<open>iota\<close> block.\<close>

definition Data_pt :: byte where "Data_pt = 0"
definition EOF_pt :: byte where "EOF_pt = 1"
definition ExtendedSegmentAddress :: byte where "ExtendedSegmentAddress = 2"
definition StartSegmentAddress :: byte where "StartSegmentAddress = 3"
definition ExtendedLinearAddress :: byte where "ExtendedLinearAddress = 4"
definition StartLinearAddress :: byte where "StartLinearAddress = 5"

record Packet =
  Type :: byte
  Address :: "16 word"
  Data :: "byte list"

definition DataPacket :: "16 word \<Rightarrow> byte list \<Rightarrow> Packet" where
  "DataPacket addr data = \<lparr>Type = Data_pt, Address = addr, Data = data\<rparr>"

definition EOFPacket :: Packet where
  "EOFPacket = \<lparr>Type = EOF_pt, Address = 0, Data = []\<rparr>"

definition ExtendedSegmentAddressPacket :: "16 word \<Rightarrow> Packet" where
  "ExtendedSegmentAddressPacket seg =
     \<lparr>Type = ExtendedSegmentAddress, Address = 0,
      Data = [ucast (drop_bit 8 seg), ucast seg]\<rparr>"

definition ExtendedLinearAddressPacket :: "16 word \<Rightarrow> Packet" where
  "ExtendedLinearAddressPacket seg =
     \<lparr>Type = ExtendedLinearAddress, Address = 0,
      Data = [ucast (drop_bit 8 seg), ucast seg]\<rparr>"

text \<open>
  The reader is the list of the bytes not yet read; \<open>ReadByte\<close> at its end is \<open>io.EOF\<close>.
  The value of one hex digit, as each of the two \<open>switch\<close> statements of \<open>readHexByte\<close>
  computes it: \<open>'0'\<close> is 0x30, \<open>'A'\<close> 0x41, \<open>'a'\<close> 0x61.
\<close>

definition hex_digit :: "byte \<Rightarrow> byte option" where
  "hex_digit n =
     (if n \<ge> 0x30 \<and> n \<le> 0x39 then Some (n - 0x30)
      else if n \<ge> 0x41 \<and> n \<le> 0x46 then Some (n - 0x41 + 10)
      else if n \<ge> 0x61 \<and> n \<le> 0x66 then Some (n - 0x61 + 10)
      else None)"

definition readHexByte :: "byte list \<Rightarrow> error + byte \<times> byte list" where
  "readHexByte rdr =
     (case rdr of
        [] \<Rightarrow> Inl io_EOF
      | n0 # rdr1 \<Rightarrow>
          (case rdr1 of
             [] \<Rightarrow> Inl io_EOF
           | n1 # rdr2 \<Rightarrow>
               (case hex_digit n0 of
                  None \<Rightarrow> Inl ErrInvalidHex
                | Some h \<Rightarrow>
                    (case hex_digit n1 of
                       None \<Rightarrow> Inl ErrInvalidHex
                     | Some l \<Rightarrow> Inr (push_bit 4 h OR l, rdr2)))))"

definition readHexWord :: "byte list \<Rightarrow> error + 16 word \<times> byte list" where
  "readHexWord rdr =
     (case readHexByte rdr of
        Inl e \<Rightarrow> Inl e
      | Inr (b0, rdr1) \<Rightarrow>
          (case readHexByte rdr1 of
             Inl e \<Rightarrow> Inl e
           | Inr (b1, rdr2) \<Rightarrow> Inr (push_bit 8 (ucast b0) OR ucast b1, rdr2)))"

text \<open>The loop \<open>pfx\<close>: line ends are skipped up to the colon (0x3A).\<close>

fun skip_prefix :: "byte list \<Rightarrow> error + byte list" where
  "skip_prefix [] = Inl io_EOF"
| "skip_prefix (b # rdr) =
     (if b = 0x0A \<or> b = 0x0D then skip_prefix rdr
      else if b = 0x3A then Inr rdr
      else Inl ErrInvalidPrefix)"

text \<open>The loop over the payload, with \<open>n\<close> bytes still to read.\<close>

fun read_payload ::
  "nat \<Rightarrow> byte list \<Rightarrow> byte \<Rightarrow> byte list \<Rightarrow> error + byte list \<times> byte \<times> byte list" where
  "read_payload 0 rdr expsum buf = Inr (buf, expsum, rdr)"
| "read_payload (Suc n) rdr expsum buf =
     (case readHexByte rdr of
        Inl e \<Rightarrow> Inl e
      | Inr (b, rdr1) \<Rightarrow> read_payload n rdr1 (expsum + b) (buf @ [b]))"

definition ReadPacket :: "byte list \<Rightarrow> error + Packet \<times> byte list" where
  "ReadPacket rdr =
     (case skip_prefix rdr of
        Inl e \<Rightarrow> Inl e
      | Inr rdr0 \<Rightarrow>
     (case readHexByte rdr0 of
        Inl e \<Rightarrow> Inl e
      | Inr (len, rdr1) \<Rightarrow>
     (case readHexWord rdr1 of
        Inl e \<Rightarrow> Inl e
      | Inr (addr, rdr2) \<Rightarrow>
     (case readHexByte rdr2 of
        Inl e \<Rightarrow> Inl e
      | Inr (ptype, rdr3) \<Rightarrow>
     (case read_payload (unat len) rdr3 (len + ucast (drop_bit 8 addr) + ucast addr + ptype) [] of
        Inl e \<Rightarrow> Inl e
      | Inr (buf, expsum, rdr4) \<Rightarrow>
     (case readHexByte rdr4 of
        Inl e \<Rightarrow> Inl e
      | Inr (recsum, rdr5) \<Rightarrow>
          (if - expsum \<noteq> recsum then Inl ErrInvalidChecksum
           else
             (case rdr5 of
                [] \<Rightarrow> Inr (\<lparr>Type = ptype, Address = addr, Data = buf\<rparr>, [])
              | b # rdr6 \<Rightarrow>
                  (if b = 0x0D \<or> b = 0x0A
                   then Inr (\<lparr>Type = ptype, Address = addr, Data = buf\<rparr>, rdr6)
                   else Inl ErrInvalidEOL)))))))))"

definition hlut :: "byte list" where
  "hlut = [0x30, 0x31, 0x32, 0x33, 0x34, 0x35, 0x36, 0x37, 0x38, 0x39,
           0x41, 0x42, 0x43, 0x44, 0x45, 0x46]"

definition appendHexByte :: "byte list \<Rightarrow> byte \<Rightarrow> byte \<Rightarrow> byte list \<times> byte" where
  "appendHexByte buf csum b =
     (buf @ [hlut ! unat (drop_bit 4 b), hlut ! unat (b AND 0xF)], csum + b)"

text \<open>The loop \<open>for _, b := range p.Data\<close>.\<close>

fun append_data :: "byte list \<Rightarrow> byte \<Rightarrow> byte list \<Rightarrow> byte list \<times> byte" where
  "append_data buf csum [] = (buf, csum)"
| "append_data buf csum (b # bs) =
     (case appendHexByte buf csum b of (buf1, sum1) \<Rightarrow> append_data buf1 sum1 bs)"

text \<open>The bytes that \<open>WritePacket\<close> hands to the sink in its one \<open>Write\<close>.\<close>

definition WritePacket_buf :: "Packet \<Rightarrow> byte list" where
  "WritePacket_buf p =
     (case appendHexByte [0x3A] 0 (of_nat (length (Data p))) of (buf1, sum1) \<Rightarrow>
      case appendHexByte buf1 sum1 (ucast (drop_bit 8 (Address p))) of (buf2, sum2) \<Rightarrow>
      case appendHexByte buf2 sum2 (ucast (Address p)) of (buf3, sum3) \<Rightarrow>
      case appendHexByte buf3 sum3 (Type p) of (buf4, sum4) \<Rightarrow>
      case append_data buf4 sum4 (Data p) of (buf5, sum5) \<Rightarrow>
      case appendHexByte buf5 sum5 (0 - sum5) of (buf6, sum6) \<Rightarrow>
        buf6 @ [0x0A])"

text \<open>
  The sink of a writer: the buffers its \<open>Write\<close> calls have taken, in order, and the
  number of calls it will still take. A sink with no room left fails every call from
  then on, as a \<open>bufio.Writer\<close> does after its first error.
\<close>

record sink =
  taken :: "byte list list"
  room :: nat

definition sink_Write :: "sink \<Rightarrow> byte list \<Rightarrow> error + sink" where
  "sink_Write w buf =
     (if room w = 0 then Inl ErrSink
      else Inr (w\<lparr>taken := taken w @ [buf], room := room w - 1\<rparr>))"

definition WritePacket :: "sink \<Rightarrow> Packet \<Rightarrow> error + sink" where
  "WritePacket w p = sink_Write w (WritePacket_buf p)"

text \<open>
  The two hex digits that \<open>appendHexByte\<close> appends for a byte, and the 8-bit sum that
  \<open>WritePacket\<close> has accumulated when it appends the checksum: the length, the two
  address bytes, the type and the payload.
\<close>

definition hex_text :: "byte \<Rightarrow> byte list" where
  "hex_text b = [hlut ! unat (drop_bit 4 b), hlut ! unat (b AND 0xF)]"

definition record_sum :: "Packet \<Rightarrow> byte" where
  "record_sum p =
     of_nat (length (Data p)) + ucast (drop_bit 8 (Address p)) + ucast (Address p) + Type p
       + sum_list (Data p)"

section \<open>Frames\<close>

lemma Unframe_Inr: "Unframe pkg = Inr f \<Longrightarrow> f = pkg \<and> length pkg = 64 \<and> pkg ! 1 \<le> 62"
  by (auto simp: Unframe_def split: if_splits)

lemma byte_le_62: "(b :: byte) \<le> 62 \<Longrightarrow> unat b \<le> 62"
  by (simp add: word_le_nat_alt)

text \<open>
  C10. A frame that the version-1 \<open>Unframe\<close> accepts has 64 bytes and declares a body of
  at most 62, so the sequence number, the body length, the body (bytes 2 up to 2 plus the
  body length, which is at most 64) and the command are all read in bounds: none of the
  accessors panics.
\<close>

theorem Unframe_accessors_in_bounds:
  assumes "Unframe pkg = Inr f"
  shows "SequenceNumber f = Returned (pkg ! 0)
       \<and> BodyLength f = Returned (unat (pkg ! 1))
       \<and> 2 + unat (pkg ! 1) \<le> length f
       \<and> length f = 64
       \<and> Body f = Returned (take (unat (pkg ! 1)) (drop 2 pkg))
       \<and> length (take (unat (pkg ! 1)) (drop 2 pkg)) = unat (pkg ! 1)
       \<and> Command f \<noteq> Panicked"
proof -
  from assms have f: "f = pkg" and len: "length pkg = 64" and le: "pkg ! 1 \<le> 62"
    using Unframe_Inr by blast+
  have n: "unat (pkg ! 1) \<le> 62" using le by (rule byte_le_62)
  have body: "Body f = Returned (take (unat (pkg ! 1)) (drop 2 pkg))"
    using n len by (simp add: Body_def BodyLength_def f Let_def drop_take)
  show ?thesis
    using n len body by (simp add: SequenceNumber_def BodyLength_def Command_def f)
qed

theorem Unframe_accessors_in_bounds_witness:
  "Unframe (1 # 3 # 0xA1 # 0 # 0 # replicate 59 0) = Inr (1 # 3 # 0xA1 # 0 # 0 # replicate 59 0)
   \<and> Body (1 # 3 # 0xA1 # 0 # 0 # replicate 59 0) = Returned [0xA1, 0, 0]"
proof -
  have h: "Unframe (1 # 3 # 0xA1 # 0 # 0 # replicate 59 0) = Inr (1 # 3 # 0xA1 # 0 # 0 # replicate 59 0)"
    by (simp add: Unframe_def)
  show ?thesis using h Unframe_accessors_in_bounds [OF h] by simp
qed

section \<open>Sequence numbers and the receive loop\<close>

lemma nextSequenceNumber_range:
  assumes "seqNo d \<le> 0x7F"
  shows "1 \<le> fst (nextSequenceNumber d) \<and> fst (nextSequenceNumber d) \<le> 0x7F
       \<and> seqNo (snd (nextSequenceNumber d)) = fst (nextSequenceNumber d)"
proof -
  have n: "unat (seqNo d) \<le> 127" using assms by (simp add: word_le_nat_alt)
  then have u: "unat (seqNo d + 1) = unat (seqNo d) + 1"
    by (simp add: unat_word_ariths)
  show ?thesis
    using n u by (auto simp: nextSequenceNumber_def Let_def word_le_nat_alt not_le)
qed

lemma allocated_hid_in_range:
  "seqNo d \<le> 0x7F \<Longrightarrow> s \<in> set (allocated nextSequenceNumber n d) \<Longrightarrow> 1 \<le> s \<and> s \<le> 0x7F"
proof (induction n arbitrary: d)
  case 0
  then show ?case by simp
next
  case (Suc n)
  obtain s1 d1 where st: "nextSequenceNumber d = (s1, d1)" by (cases "nextSequenceNumber d")
  have r: "1 \<le> s1 \<and> s1 \<le> 0x7F \<and> seqNo d1 = s1"
    using nextSequenceNumber_range [OF Suc.prems(1)] st by simp
  from Suc.prems(2) st have "s = s1 \<or> s \<in> set (allocated nextSequenceNumber n d1)" by simp
  then show ?case using r Suc.IH [of d1] by auto
qed

lemma nextSequenceNumber_gousb_step:
  assumes "seqNo d = of_nat k" and "k \<le> 127"
  shows "nextSequenceNumber_gousb d =
           (if k = 127 then (0, d\<lparr>seqNo := 0\<rparr>) else (of_nat (Suc k), d\<lparr>seqNo := of_nat (Suc k)\<rparr>))"
proof -
  have u: "unat (of_nat k + 1 :: byte) = Suc k"
    using assms(2) by (simp add: unat_word_ariths unat_of_nat)
  have "(of_nat k + 1 :: byte) \<ge> 0x80 \<longleftrightarrow> k = 127"
    using assms(2) u by (auto simp: word_le_nat_alt)
  then show ?thesis
    using assms(1) by (simp add: nextSequenceNumber_gousb_def Let_def add.commute)
qed

lemma allocated_gousb_nth:
  "seqNo d = of_nat k \<Longrightarrow> k + n \<le> 127 \<Longrightarrow>
   allocated nextSequenceNumber_gousb (Suc n) d ! n = (if k + n = 127 then 0 else of_nat (Suc (k + n)))"
proof (induction n arbitrary: d k)
  case 0
  then show ?case
    by (simp add: nextSequenceNumber_gousb_step [of d k] del: of_nat_Suc)
next
  case (Suc n)
  have k: "k < 127" using Suc.prems(2) by simp
  have st: "nextSequenceNumber_gousb d = (of_nat (Suc k), d\<lparr>seqNo := of_nat (Suc k)\<rparr>)"
    using nextSequenceNumber_gousb_step [OF Suc.prems(1)] k by simp
  have "allocated nextSequenceNumber_gousb (Suc (Suc n)) d ! Suc n
          = allocated nextSequenceNumber_gousb (Suc n) (d\<lparr>seqNo := of_nat (Suc k)\<rparr>) ! n"
    using st by simp
  also have "\<dots> = (if Suc k + n = 127 then 0 else of_nat (Suc (Suc k + n)))"
    using Suc.prems(2) by (intro Suc.IH) simp_all
  finally show ?case by simp
qed

text \<open>
  C3. The claim holds of the hid variant (the two lemmas above): from the 0 of \<open>Connect\<close>
  every allocated sequence number lies in 1 to 0x7F. The gousb variant resets the counter
  to 0 instead of 1 when it reaches 0x80, so on a fresh gousb session the 128th send is
  allocated the sequence number 0, which the claim says is never sent.
\<close>

theorem gousb_128th_sequence_number_is_zero:
  "allocated nextSequenceNumber_gousb 128 (Connect rs ws) ! 127 = 0"
proof -
  have "seqNo (Connect rs ws) = of_nat 0" by (simp add: Connect_def)
  from allocated_gousb_nth [OF this, of 127] show ?thesis by simp
qed

lemma read_frame_ok:
  assumes "incoming d = ReadBytes f # rs" and "length f = 64" and "f ! 1 \<le> 62"
  shows "read_frame d = (Inr f, d\<lparr>incoming := rs\<rparr>)"
  using assms by (simp add: read_frame_def FrameLength_def Unframe_def)

lemma Body_ok:
  assumes "length f = 64" and "f ! 1 \<le> 62"
  shows "Body f = Returned (take (unat (f ! 1)) (drop 2 f))"
proof -
  have "unat (f ! 1) \<le> 62" using assms(2) by (rule byte_le_62)
  then show ?thesis using assms(1) by (simp add: Body_def BodyLength_def Let_def drop_take)
qed

lemma Receive_loop_resynchronises:
  assumes "incoming d = map ReadBytes fs @ ReadBytes m # rest"
    and "attempt + length fs \<le> 4"
    and "list_all (stale (seqNo d)) fs"
    and "length m = 64" and "m ! 1 \<le> 62" and "m ! 0 = seqNo d"
  shows "Receive_loop attempt d
           = (Returned (Inr (take (unat (m ! 1)) (drop 2 m))), d\<lparr>incoming := rest\<rparr>)"
  using assms
proof (induction fs arbitrary: attempt d)
  case Nil
  then have rf: "read_frame d = (Inr m, d\<lparr>incoming := rest\<rparr>)"
    by (simp add: read_frame_ok)
  show ?case
    using Nil.prems(4-6) rf Body_ok [of m]
    by (simp add: Receive_loop.simps [of attempt d] SequenceNumber_def)
next
  case (Cons f fs)
  from Cons.prems have f: "length f = 64" "f ! 1 \<le> 62" "f ! 0 \<noteq> seqNo d" by simp_all
  let ?d1 = "d\<lparr>incoming := map ReadBytes fs @ ReadBytes m # rest\<rparr>"
  have rf: "read_frame d = (Inr f, ?d1)"
    using Cons.prems(1) f by (simp add: read_frame_ok)
  have "Receive_loop attempt d = Receive_loop (Suc attempt) ?d1"
    using rf f Cons.prems(2)
    by (simp add: Receive_loop.simps [of attempt d] SequenceNumber_def)
  also have "\<dots> = (Returned (Inr (take (unat (m ! 1)) (drop 2 m))), ?d1\<lparr>incoming := rest\<rparr>)"
    using Cons.prems by (intro Cons.IH) simp_all
  finally show ?case by simp
qed

lemma Receive_loop_gives_up:
  assumes "incoming d = map ReadBytes fs @ rest"
    and "attempt + length fs = 5"
    and "fs \<noteq> []"
    and "list_all (stale (seqNo d)) fs"
  shows "Receive_loop attempt d
           = (Returned (Inl ErrSequenceNumberIncorrect), d\<lparr>incoming := rest\<rparr>)"
  using assms
proof (induction fs arbitrary: attempt d)
  case Nil
  then show ?case by simp
next
  case (Cons f fs)
  from Cons.prems have f: "length f = 64" "f ! 1 \<le> 62" "f ! 0 \<noteq> seqNo d" by simp_all
  let ?d1 = "d\<lparr>incoming := map ReadBytes fs @ rest\<rparr>"
  have rf: "read_frame d = (Inr f, ?d1)"
    using Cons.prems(1) f by (simp add: read_frame_ok)
  show ?case
  proof (cases "fs = []")
    case True
    then have "attempt = 4" using Cons.prems(2) by simp
    then show ?thesis
      using rf f True by (simp add: Receive_loop.simps [of 4 d] SequenceNumber_def)
  next
    case False
    then have a: "Suc attempt < 5" using Cons.prems(2) by (cases fs) simp_all
    have "Receive_loop attempt d = Receive_loop (Suc attempt) ?d1"
      using rf f a by (simp add: Receive_loop.simps [of attempt d] SequenceNumber_def)
    also have "\<dots> = (Returned (Inl ErrSequenceNumberIncorrect), ?d1\<lparr>incoming := rest\<rparr>)"
      using Cons.prems False by (intro Cons.IH) simp_all
    finally show ?thesis by simp
  qed
qed

text \<open>
  C4. The hid variant does what the claim says (the two lemmas above: up to four stale
  frames are skipped, the fifth mismatch is a sequence-mismatch error). The gousb variant
  has no loop: with the last sent sequence number 1, one stale frame (sequence number 0)
  followed by the matching frame makes it fail with the sequence-mismatch error at the
  first frame, where the hid variant returns the body of the matching frame.
\<close>

theorem Receive_gousb_fails_at_first_stale_frame:
  "Receive_gousb
     \<lparr>seqNo = 1,
      incoming = [ReadBytes (0 # 0 # replicate 62 0), ReadBytes (1 # 1 # 0xAB # replicate 61 0)],
      accepting = [], sent = []\<rparr>
   = (Returned (Inl ErrSequenceNumberIncorrect),
      \<lparr>seqNo = 1, incoming = [ReadBytes (1 # 1 # 0xAB # replicate 61 0)],
       accepting = [], sent = []\<rparr>)
   \<and> fst (Receive
     \<lparr>seqNo = 1,
      incoming = [ReadBytes (0 # 0 # replicate 62 0), ReadBytes (1 # 1 # 0xAB # replicate 61 0)],
      accepting = [], sent = []\<rparr>)
   = Returned (Inr [0xAB])"
proof -
  let ?m = "1 # 1 # 0xAB # replicate 61 (0 :: byte)"
  let ?d = "\<lparr>seqNo = 1, incoming = [ReadBytes (0 # 0 # replicate 62 0), ReadBytes ?m],
            accepting = [], sent = []\<rparr>"
  have g: "Receive_gousb ?d
     = (Returned (Inl ErrSequenceNumberIncorrect),
        \<lparr>seqNo = 1, incoming = [ReadBytes ?m], accepting = [], sent = []\<rparr>)"
    by (simp add: Receive_gousb_def read_frame_def FrameLength_def Unframe_def
        SequenceNumber_def)
  have "Receive_loop 0 ?d
     = (Returned (Inr (take (unat (?m ! 1)) (drop 2 ?m))), ?d\<lparr>incoming := []\<rparr>)"
    by (rule Receive_loop_resynchronises [where fs = "[0 # 0 # replicate 62 0]"]) simp_all
  then have h: "fst (Receive ?d) = Returned (Inr [0xAB])"
    by (simp add: Receive_def)
  show ?thesis using g h by simp
qed

section \<open>The configuration codec\<close>

lemmas enum_defs =
  BootFromLDROM_def BootFromAPROM_def
  N76E003LDROM0KB_def N76E003LDROM1KB_def N76E003LDROM2KB_def N76E003LDROM3KB_def
  N76E003LDROM4KB_def
  BODVoltage4v4_def BODVoltage3v7_def BODVoltage2v7_def BODVoltage2v2_def
  WDTDisabled_def WDTEnabled_def WDTEnabledAlways_def

lemma byte_le_4_cases:
  assumes "(b :: byte) \<le> 4"
  shows "b = 0 \<or> b = 1 \<or> b = 2 \<or> b = 3 \<or> b = 4"
proof -
  from assms have "unat b \<le> 4" by (simp add: word_le_nat_alt)
  then have "unat b = 0 \<or> unat b = 1 \<or> unat b = 2 \<or> unat b = 3 \<or> unat b = 4" by arith
  then show ?thesis by (simp add: word_unat_eq_iff)
qed

lemma byte_le_3_cases:
  assumes "(b :: byte) \<le> 3"
  shows "b = 0 \<or> b = 1 \<or> b = 2 \<or> b = 3"
proof -
  from assms have "unat b \<le> 3" by (simp add: word_le_nat_alt)
  then have "unat b = 0 \<or> unat b = 1 \<or> unat b = 2 \<or> unat b = 3" by arith
  then show ?thesis by (simp add: word_unat_eq_iff)
qed

lemma byte_le_2_cases:
  assumes "(b :: byte) \<le> 2"
  shows "b = 0 \<or> b = 1 \<or> b = 2"
proof -
  from assms have "unat b \<le> 2" by (simp add: word_le_nat_alt)
  then have "unat b = 0 \<or> unat b = 1 \<or> unat b = 2" by arith
  then show ?thesis by (simp add: word_unat_eq_iff)
qed

lemma replicate_8: "replicate 8 x = [x, x, x, x, x, x, x, x]"
  by (simp add: eval_nat_numeral)

text \<open>What one step of the encoder does to the byte at index \<open>j\<close>.\<close>

lemma nth_list_update_full:
  "xs[i := x] ! j = (if i = j \<and> j < length xs then x else xs ! j)"
  by (cases "i < length xs") (auto simp: nth_list_update list_update_beyond)

lemma if_and_at_length [simp]: "length ((if c then and_at i m else id) buf) = length buf"
  by (simp add: and_at_def)

lemma if_and_at_nth:
  "(if c then and_at i m else id) buf ! j
     = buf ! j AND (if c \<and> i = j \<and> j < length buf then m else - 1)"
  by (simp add: and_at_def nth_list_update_full)

lemma switch5_length [simp]:
  "length ((if c1 then set_at i v1 else if c2 then set_at i v2 else if c3 then set_at i v3
            else if c4 then set_at i v4 else if c5 then set_at i v5 else id) buf) = length buf"
  by (simp add: set_at_def)

lemma switch5_nth:
  "(if c1 then set_at i v1 else if c2 then set_at i v2 else if c3 then set_at i v3
    else if c4 then set_at i v4 else if c5 then set_at i v5 else id) buf ! j
     = (if i = j \<and> j < length buf \<and> (c1 \<or> c2 \<or> c3 \<or> c4 \<or> c5)
        then (if c1 then v1 else if c2 then v2 else if c3 then v3 else if c4 then v4 else v5)
        else buf ! j)"
  by (simp add: set_at_def nth_list_update_full)

lemma switch4_length [simp]:
  "length ((if c1 then and_at i m1 else if c2 then and_at i m2 else if c3 then and_at i m3
            else if c4 then and_at i m4 else id) buf) = length buf"
  by (simp add: and_at_def)

lemma switch4_nth:
  "(if c1 then and_at i m1 else if c2 then and_at i m2 else if c3 then and_at i m3
    else if c4 then and_at i m4 else id) buf ! j
     = buf ! j AND (if i = j \<and> j < length buf
                    then (if c1 then m1 else if c2 then m2 else if c3 then m3
                          else if c4 then m4 else - 1)
                    else - 1)"
  by (simp add: and_at_def nth_list_update_full)

lemma switch3_length [simp]:
  "length ((if c1 then set_at i v1 else if c2 then set_at i v2 else if c3 then set_at i v3
            else id) buf) = length buf"
  by (simp add: set_at_def)

lemma switch3_nth:
  "(if c1 then set_at i v1 else if c2 then set_at i v2 else if c3 then set_at i v3
    else id) buf ! j
     = (if i = j \<and> j < length buf \<and> (c1 \<or> c2 \<or> c3)
        then (if c1 then v1 else if c2 then v2 else v3)
        else buf ! j)"
  by (simp add: set_at_def nth_list_update_full)

lemmas step_nth = if_and_at_nth switch5_nth switch4_nth switch3_nth

lemma MarshalBinary_buf_length: "length (MarshalBinary_buf c) = 8"
  by (simp add: MarshalBinary_buf_def Let_def)

lemma buf_nth0:
  "MarshalBinary_buf c ! 0 =
     ((((255 AND (if BootSelect c = BootFromLDROM then 0x7F else - 1))
        AND (if PWMEnabledDuringOCD c then 0xDF else - 1))
       AND (if OCDEnabled c then 0xEF else - 1))
      AND (if ResetPinDisabled c then 0xFB else - 1))
     AND (if Locked c then 0xFD else - 1)"
  by (simp add: MarshalBinary_buf_def Let_def step_nth split del: if_split cong: if_cong)

lemma buf_nth1:
  "MarshalBinary_buf c ! Suc 0 =
     (if LDROMSize c = N76E003LDROM0KB then 0xFF
      else if LDROMSize c = N76E003LDROM1KB then 0xFE
      else if LDROMSize c = N76E003LDROM2KB then 0xFD
      else if LDROMSize c = N76E003LDROM3KB then 0xFC
      else if LDROMSize c = N76E003LDROM4KB then 0xFB
      else 0xFF)"
proof -
  have "MarshalBinary_buf c ! Suc 0 =
     (if LDROMSize c = N76E003LDROM0KB \<or> LDROMSize c = N76E003LDROM1KB
         \<or> LDROMSize c = N76E003LDROM2KB \<or> LDROMSize c = N76E003LDROM3KB
         \<or> LDROMSize c = N76E003LDROM4KB
      then if LDROMSize c = N76E003LDROM0KB then 255
           else if LDROMSize c = N76E003LDROM1KB then 254
           else if LDROMSize c = N76E003LDROM2KB then 253
           else if LDROMSize c = N76E003LDROM3KB then 252 else 251
      else 255)"
    by (simp add: MarshalBinary_buf_def Let_def step_nth split del: if_split cong: if_cong)
  then show ?thesis by auto
qed

lemma buf_nth2:
  "MarshalBinary_buf c ! 2 =
     (((255 AND (if BODDisabled c then 0x7F else - 1))
       AND (if BODVoltage c = BODVoltage4v4 then 0xCF
            else if BODVoltage c = BODVoltage3v7 then 0xDF
            else if BODVoltage c = BODVoltage2v7 then 0xEF
            else if BODVoltage c = BODVoltage2v2 then 0xFF
            else - 1))
      AND (if IAPEnabledInBrownout c then 0xF7 else - 1))
     AND (if BODResetDisabled c then 0xFB else - 1)"
  by (simp add: MarshalBinary_buf_def Let_def step_nth split del: if_split cong: if_cong)

lemma buf_nth3:
  "MarshalBinary_buf c ! 3 =
     (if WDT c = WDTDisabled then 0xFF
      else if WDT c = WDTEnabled then 0x5F
      else if WDT c = WDTEnabledAlways then 0x0F
      else 0xFF)"
proof -
  have "MarshalBinary_buf c ! 3 =
     (if WDT c = WDTDisabled \<or> WDT c = WDTEnabled \<or> WDT c = WDTEnabledAlways
      then if WDT c = WDTDisabled then 255 else if WDT c = WDTEnabled then 95 else 15
      else 255)"
    by (simp add: MarshalBinary_buf_def Let_def step_nth split del: if_split cong: if_cong)
  then show ?thesis by auto
qed


lemma UnmarshalBinary_fields:
  assumes "4 \<le> length buf"
  shows "UnmarshalBinary cfg0 buf =
     Inr (cfg0\<lparr>BootSelect := (if buf ! 0 AND 0x80 = 0 then BootFromLDROM else BootFromAPROM),
           PWMEnabledDuringOCD := (buf ! 0 AND 0x20 = 0),
           OCDEnabled := (buf ! 0 AND 0x10 = 0),
           ResetPinDisabled := (buf ! 0 AND 0x04 = 0),
           Locked := (buf ! 0 AND 0x02 = 0),
           LDROMSize := (if buf ! 1 AND 0x7 = 7 then N76E003LDROM0KB
                         else if buf ! 1 AND 0x7 = 6 then N76E003LDROM1KB
                         else if buf ! 1 AND 0x7 = 5 then N76E003LDROM2KB
                         else if buf ! 1 AND 0x7 = 4 then N76E003LDROM3KB
                         else N76E003LDROM4KB),
           BODDisabled := (buf ! 2 AND 0x80 = 0),
           BODVoltage := (if drop_bit 4 (buf ! 2) AND 0x3 = 0 then BODVoltage4v4
                          else if drop_bit 4 (buf ! 2) AND 0x3 = 1 then BODVoltage3v7
                          else if drop_bit 4 (buf ! 2) AND 0x3 = 2 then BODVoltage2v7
                          else BODVoltage2v2),
           IAPEnabledInBrownout := (buf ! 2 AND 0x08 = 0),
           BODResetDisabled := (buf ! 2 AND 0x04 = 0),
           WDT := (if drop_bit 4 (buf ! 3) = 0xF then WDTDisabled
                   else if drop_bit 4 (buf ! 3) = 0x5 then WDTEnabled
                   else WDTEnabledAlways)\<rparr>)"
  using assms by (simp add: UnmarshalBinary_def Let_def)

lemma field_BootSelect:
  "defined_values c \<Longrightarrow>
   (if MarshalBinary_buf c ! 0 AND 0x80 = 0 then BootFromLDROM else BootFromAPROM) = BootSelect c"
  by (auto simp: buf_nth0 defined_values_def enum_defs)

lemma field_PWM: "(MarshalBinary_buf c ! 0 AND 0x20 = 0) = PWMEnabledDuringOCD c"
  by (auto simp: buf_nth0)

lemma field_OCD: "(MarshalBinary_buf c ! 0 AND 0x10 = 0) = OCDEnabled c"
  by (auto simp: buf_nth0)

lemma field_RPD: "(MarshalBinary_buf c ! 0 AND 0x04 = 0) = ResetPinDisabled c"
  by (auto simp: buf_nth0)

lemma field_Locked: "(MarshalBinary_buf c ! 0 AND 0x02 = 0) = Locked c"
  by (auto simp: buf_nth0)

lemma field_LDROMSize:
  assumes "defined_values c"
  shows "(if MarshalBinary_buf c ! 1 AND 0x7 = 7 then N76E003LDROM0KB
          else if MarshalBinary_buf c ! 1 AND 0x7 = 6 then N76E003LDROM1KB
          else if MarshalBinary_buf c ! 1 AND 0x7 = 5 then N76E003LDROM2KB
          else if MarshalBinary_buf c ! 1 AND 0x7 = 4 then N76E003LDROM3KB
          else N76E003LDROM4KB) = LDROMSize c"
proof -
  from assms have "LDROMSize c \<le> 4" by (simp add: defined_values_def enum_defs)
  from byte_le_4_cases [OF this] show ?thesis
    by (auto simp: buf_nth1 enum_defs)
qed

lemma field_BODDisabled: "(MarshalBinary_buf c ! 2 AND 0x80 = 0) = BODDisabled c"
  by (auto simp: buf_nth2)

lemma field_IAP: "(MarshalBinary_buf c ! 2 AND 0x08 = 0) = IAPEnabledInBrownout c"
  by (auto simp: buf_nth2)

lemma field_BODReset: "(MarshalBinary_buf c ! 2 AND 0x04 = 0) = BODResetDisabled c"
  by (auto simp: buf_nth2)

lemma field_BODVoltage:
  assumes "defined_values c"
  shows "(if drop_bit 4 (MarshalBinary_buf c ! 2) AND 0x3 = 0 then BODVoltage4v4
          else if drop_bit 4 (MarshalBinary_buf c ! 2) AND 0x3 = 1 then BODVoltage3v7
          else if drop_bit 4 (MarshalBinary_buf c ! 2) AND 0x3 = 2 then BODVoltage2v7
          else BODVoltage2v2) = BODVoltage c"
proof -
  from assms have "BODVoltage c \<le> 3" by (simp add: defined_values_def enum_defs)
  from byte_le_3_cases [OF this] show ?thesis
    by (auto simp: buf_nth2 enum_defs mask_eq_exp_minus_1)
qed

lemma field_WDT:
  assumes "defined_values c"
  shows "(if drop_bit 4 (MarshalBinary_buf c ! 3) = 0xF then WDTDisabled
          else if drop_bit 4 (MarshalBinary_buf c ! 3) = 0x5 then WDTEnabled
          else WDTEnabledAlways) = WDT c"
proof -
  from assms have "WDT c \<le> 2" by (simp add: defined_values_def enum_defs)
  from byte_le_2_cases [OF this] show ?thesis
    by (auto simp: buf_nth3 enum_defs mask_eq_exp_minus_1)
qed


lemmas field_simps_cfg =
  field_BootSelect field_PWM field_OCD field_RPD field_Locked field_LDROMSize
  field_BODDisabled field_BODVoltage field_IAP field_BODReset field_WDT

lemma UnmarshalBinary_MarshalBinary_buf:
  assumes "defined_values c"
  shows "UnmarshalBinary cfg0 (MarshalBinary_buf c) = Inr c"
proof -
  have len: "4 \<le> length (MarshalBinary_buf c)" by (simp add: MarshalBinary_buf_length)
  note f = field_BootSelect [OF assms] field_PWM [of c] field_OCD [of c] field_RPD [of c]
    field_Locked [of c] field_LDROMSize [OF assms] field_BODDisabled [of c]
    field_BODVoltage [OF assms] field_IAP [of c] field_BODReset [of c] field_WDT [OF assms]
  have "UnmarshalBinary cfg0 (MarshalBinary_buf c) =
          Inr (cfg0\<lparr>BootSelect := BootSelect c,
                PWMEnabledDuringOCD := PWMEnabledDuringOCD c,
                OCDEnabled := OCDEnabled c,
                ResetPinDisabled := ResetPinDisabled c,
                Locked := Locked c,
                LDROMSize := LDROMSize c,
                BODDisabled := BODDisabled c,
                BODVoltage := BODVoltage c,
                IAPEnabledInBrownout := IAPEnabledInBrownout c,
                BODResetDisabled := BODResetDisabled c,
                WDT := WDT c\<rparr>)"
    unfolding UnmarshalBinary_fields [OF len] f ..
  also have "\<dots> = Inr c" by (cases c, cases cfg0) simp
  finally show ?thesis .
qed

lemma UnmarshalBinary_defined:
  assumes "UnmarshalBinary cfg0 buf = Inr c"
  shows "defined_values c"
proof -
  from assms have "4 \<le> length buf"
    by (auto simp: UnmarshalBinary_def split: if_splits)
  from UnmarshalBinary_fields [OF this, of cfg0] assms show ?thesis
    by (auto simp: defined_values_def enum_defs)
qed

lemma MarshalBinary_defined:
  "defined_values c \<Longrightarrow> MarshalBinary c = Returned (Inr (MarshalBinary_buf c))"
  by (simp add: MarshalBinary_def UnmarshalBinary_MarshalBinary_buf)

lemma MarshalBinary_undefined:
  assumes "\<not> defined_values c"
  shows "MarshalBinary c = Panicked"
proof -
  have "4 \<le> length (MarshalBinary_buf c)" by (simp add: MarshalBinary_buf_length)
  from UnmarshalBinary_fields [OF this, of NewConfig]
  obtain c' where c': "UnmarshalBinary NewConfig (MarshalBinary_buf c) = Inr c'" by blast
  then have "defined_values c'" by (rule UnmarshalBinary_defined)
  with assms have "c' \<noteq> c" by auto
  with c' show ?thesis by (simp add: MarshalBinary_def)
qed

text \<open>
  C2. A configuration whose enumeration fields hold defined values is accepted by
  \<open>MarshalBinary\<close>, and whatever bytes \<open>MarshalBinary\<close> returns unmarshal to the
  configuration it was given, whatever the receiving object held before. \<open>MarshalBinary\<close>
  unmarshals its own bytes into a fresh object and panics when the result differs from
  its input; that is the case exactly for the configurations with an undefined
  enumeration value.
\<close>

theorem MarshalBinary_roundtrip:
  "(\<forall>b. MarshalBinary c = Returned (Inr b) \<longrightarrow> UnmarshalBinary cfg0 b = Inr c)
   \<and> (defined_values c \<longrightarrow> MarshalBinary c = Returned (Inr (MarshalBinary_buf c)))
   \<and> (\<forall>c'. UnmarshalBinary NewConfig (MarshalBinary_buf c) = Inr c' \<and> c' \<noteq> c
          \<longrightarrow> MarshalBinary c = Panicked)
   \<and> (\<not> defined_values c \<longrightarrow> MarshalBinary c = Panicked)"
proof (intro conjI allI impI)
  fix b assume r: "MarshalBinary c = Returned (Inr b)"
  then have d: "defined_values c" using MarshalBinary_undefined [of c] by auto
  with r have "b = MarshalBinary_buf c" by (simp add: MarshalBinary_defined)
  with d show "UnmarshalBinary cfg0 b = Inr c" by (simp add: UnmarshalBinary_MarshalBinary_buf)
next
  assume "defined_values c"
  then show "MarshalBinary c = Returned (Inr (MarshalBinary_buf c))" by (rule MarshalBinary_defined)
next
  fix c' assume "UnmarshalBinary NewConfig (MarshalBinary_buf c) = Inr c' \<and> c' \<noteq> c"
  then show "MarshalBinary c = Panicked" by (simp add: MarshalBinary_def)
next
  assume "\<not> defined_values c"
  then show "MarshalBinary c = Panicked" by (rule MarshalBinary_undefined)
qed

theorem MarshalBinary_roundtrip_witness:
  "defined_values (NewConfig\<lparr>LDROMSize := N76E003LDROM2KB, WDT := WDTEnabled\<rparr>)
   \<and> MarshalBinary (NewConfig\<lparr>LDROMSize := N76E003LDROM2KB, WDT := WDTEnabled\<rparr>)
       = Returned (Inr [0x7F, 0xFD, 0xCF, 0x5F, 0xFF, 0xFF, 0xFF, 0xFF])
   \<and> UnmarshalBinary NewConfig [0x7F, 0xFD, 0xCF, 0x5F, 0xFF, 0xFF, 0xFF, 0xFF]
       = Inr (NewConfig\<lparr>LDROMSize := N76E003LDROM2KB, WDT := WDTEnabled\<rparr>)
   \<and> \<not> defined_values (NewConfig\<lparr>LDROMSize := 9\<rparr>)
   \<and> MarshalBinary (NewConfig\<lparr>LDROMSize := 9\<rparr>) = Panicked"
proof -
  let ?c = "NewConfig\<lparr>LDROMSize := N76E003LDROM2KB, WDT := WDTEnabled\<rparr>"
  have d: "defined_values ?c"
    by (simp add: defined_values_def NewConfig_def enum_defs)
  have b: "MarshalBinary_buf ?c = [0x7F, 0xFD, 0xCF, 0x5F, 0xFF, 0xFF, 0xFF, 0xFF]"
    by (simp add: MarshalBinary_buf_def NewConfig_def enum_defs Let_def replicate_8
        and_at_def set_at_def)
  have n: "\<not> defined_values (NewConfig\<lparr>LDROMSize := 9\<rparr>)"
    by (simp add: defined_values_def NewConfig_def enum_defs)
  from MarshalBinary_roundtrip [of ?c NewConfig] d b
  have 1: "MarshalBinary ?c = Returned (Inr [0x7F, 0xFD, 0xCF, 0x5F, 0xFF, 0xFF, 0xFF, 0xFF])"
    and 2: "UnmarshalBinary NewConfig [0x7F, 0xFD, 0xCF, 0x5F, 0xFF, 0xFF, 0xFF, 0xFF] = Inr ?c"
    by simp_all
  from MarshalBinary_roundtrip [of "NewConfig\<lparr>LDROMSize := 9\<rparr>" NewConfig] n
  have 3: "MarshalBinary (NewConfig\<lparr>LDROMSize := 9\<rparr>) = Panicked" by blast
  show ?thesis using d 1 2 n 3 by simp
qed

lemma GetLDROMSize_defined:
  assumes "defined_values c"
  shows "\<exists>l. GetLDROMSize c = Returned l \<and> l \<in> {0, 1024, 2048, 3072, 4096}"
proof -
  from assms have "LDROMSize c \<le> 4" by (simp add: defined_values_def enum_defs)
  from byte_le_4_cases [OF this] show ?thesis
    by (auto simp: GetLDROMSize_def enum_defs)
qed

lemma GetLDROMSize_undefined:
  assumes "N76E003LDROM4KB < LDROMSize c"
  shows "GetLDROMSize c = Panicked"
proof -
  from assms have "4 < unat (LDROMSize c)" by (simp add: enum_defs word_less_nat_alt)
  then have "LDROMSize c \<noteq> 0 \<and> LDROMSize c \<noteq> 1 \<and> LDROMSize c \<noteq> 2
           \<and> LDROMSize c \<noteq> 3 \<and> LDROMSize c \<noteq> 4" by auto
  then show ?thesis by (simp add: GetLDROMSize_def enum_defs)
qed

lemma region_arith:
  fixes P l :: "64 word"
  assumes "4096 \<le> P" and "l \<in> {0, 1024, 2048, 3072, 4096}"
  shows "unat (P - l) + unat l = unat P"
proof -
  from assms(2) have "l \<le> 4096" by auto
  with assms(1) have "l \<le> P" by simp
  then show ?thesis by (simp add: unat_sub word_le_nat_alt)
qed

text \<open>
  C7. For every configuration that decodes, \<open>GetLDROMSize\<close> returns one of 0, 1024, 2048,
  3072 and 4096, and the size of the program region (\<open>ProgMemSize - GetLDROMSize\<close>, the
  length of what \<open>APROM\<close> returns) plus the size of the loader region (the length of what
  \<open>LDROM\<close> returns) is the size of the program memory, on a target whose program memory
  holds the largest loader region. A size enumeration beyond the five declared values
  makes \<open>GetLDROMSize\<close> panic; it returns no error.
\<close>

theorem region_sizes:
  assumes dec: "Decode td (Config_td d) = Inr cfg"
    and td: "TargetDefinition d = td"
    and len: "length (Data_td d) = unat (ProgMemSize td)"
    and big: "4096 \<le> ProgMemSize td"
  shows "\<exists>l. GetLDROMSize cfg = Returned l
           \<and> l \<in> {0, 1024, 2048, 3072, 4096}
           \<and> (ProgMemSize td - l) + l = ProgMemSize td
           \<and> unat (ProgMemSize td - l) + unat l = unat (ProgMemSize td)
           \<and> APROM d = Returned (Inr (take (unat (ProgMemSize td - l)) (Data_td d)))
           \<and> LDROM d = Returned (Inr (drop (unat (ProgMemSize td - l)) (Data_td d)))
           \<and> (\<forall>c. N76E003LDROM4KB < LDROMSize c \<longrightarrow> GetLDROMSize c = Panicked)"
proof -
  from dec have "defined_values cfg"
    unfolding Decode_def by (rule UnmarshalBinary_defined)
  then obtain l where l: "GetLDROMSize cfg = Returned l" "l \<in> {0, 1024, 2048, 3072, 4096}"
    using GetLDROMSize_defined by blast
  have ar: "unat (ProgMemSize td - l) + unat l = unat (ProgMemSize td)"
    using big l(2) by (rule region_arith)
  then have le: "unat (ProgMemSize td - l) \<le> length (Data_td d)" using len by simp
  have a: "APROM d = Returned (Inr (take (unat (ProgMemSize td - l)) (Data_td d)))"
    using dec td l(1) le by (simp add: APROM_def Let_def)
  have b: "LDROM d = Returned (Inr (drop (unat (ProgMemSize td - l)) (Data_td d)))"
    using dec td l(1) le by (simp add: LDROM_def Let_def)
  show ?thesis using l ar a b GetLDROMSize_undefined by auto
qed


theorem region_sizes_witness:
  "Decode N76E003 [0xFF, 0xFD, 0xFF, 0xFF]
     = UnmarshalBinary NewConfig [0xFF, 0xFD, 0xFF, 0xFF]
   \<and> APROM ((NewTargetData N76E003)\<lparr>Config_td := [0xFF, 0xFD, 0xFF, 0xFF]\<rparr>)
     = Returned (Inr (replicate 10240 0xFF))
   \<and> LDROM ((NewTargetData N76E003)\<lparr>Config_td := [0xFF, 0xFD, 0xFF, 0xFF]\<rparr>)
     = Returned (Inr (replicate 2048 0xFF))"
proof -
  let ?buf = "[0xFF, 0xFD, 0xFF, 0xFF] :: byte list"
  let ?d = "(NewTargetData N76E003)\<lparr>Config_td := ?buf\<rparr>"
  obtain cfg where cfg: "UnmarshalBinary NewConfig ?buf = Inr cfg"
    using UnmarshalBinary_fields [of ?buf NewConfig] by simp
  then have sz: "LDROMSize cfg = N76E003LDROM2KB"
    using UnmarshalBinary_fields [of ?buf NewConfig] by auto
  have dec: "Decode N76E003 (Config_td ?d) = Inr cfg"
    using cfg by (simp add: Decode_def)
  have td: "TargetDefinition ?d = N76E003" by (simp add: NewTargetData_def)
  have len: "length (Data_td ?d) = unat (ProgMemSize N76E003)"
    by (simp add: NewTargetData_def)
  have big: "4096 \<le> ProgMemSize N76E003" by (simp add: N76E003_def)
  from region_sizes [OF dec td len big] obtain l where
    l: "GetLDROMSize cfg = Returned l"
    and a: "APROM ?d = Returned (Inr (take (unat (ProgMemSize N76E003 - l)) (Data_td ?d)))"
    and b: "LDROM ?d = Returned (Inr (drop (unat (ProgMemSize N76E003 - l)) (Data_td ?d)))"
    by blast
  from l sz have "l = 2048" by (simp add: GetLDROMSize_def enum_defs)
  with a b show ?thesis
    by (simp add: Decode_def NewTargetData_def N76E003_def)
qed

section \<open>Records: writing and reading back\<close>

lemma fifteen_mask: "(0xF :: byte) = mask 4"
  by (simp add: mask_eq_exp_minus_1)

lemma nibble_hi: "unat (drop_bit 4 (b :: byte)) < 16"
proof -
  have "unat b < 256" using unsigned_less [of b, where ?'a = nat] by simp
  then show ?thesis unfolding unat_drop_bit_eq by (simp add: drop_bit_eq_div)
qed

lemma nibble_lo: "unat ((b :: byte) AND 0xF) < 16"
proof -
  have "unat (b AND 0xF) \<le> unat (0xF :: byte)"
    by (rule word_and_le1 [THEN word_le_nat_alt [THEN iffD1]])
  then show ?thesis by simp
qed

lemma nibbles_join: "push_bit 4 (drop_bit 4 b) OR (b AND 0xF) = (b :: byte)"
  unfolding fifteen_mask
  by (rule bit_word_eqI) (auto simp: bit_simps)

lemma nibble_values:
  assumes "(i :: nat) < 16"
  shows "i \<in> {0, 1, 2, 3, 4, 5, 6, 7, 8, 9, 10, 11, 12, 13, 14, 15}"
  using assms by simp arith

lemma hex_digit_hlut:
  assumes "i < 16"
  shows "hex_digit (hlut ! i) = Some (of_nat i)"
  using nibble_values [OF assms] by (auto simp: hlut_def hex_digit_def)

lemma readHexByte_hex_text: "readHexByte (hex_text b @ rest) = Inr (b, rest)"
  by (simp add: readHexByte_def hex_text_def hex_digit_hlut nibble_hi nibble_lo nibbles_join)

lemma bytes_join:
  "push_bit 8 (ucast (ucast (drop_bit 8 a) :: byte)) OR ucast (ucast a :: byte) = (a :: 16 word)"
  by (rule bit_word_eqI) (auto simp: bit_simps)

lemma readHexWord_hex_text:
  "readHexWord (hex_text (ucast (drop_bit 8 a)) @ hex_text (ucast a) @ rest) = Inr (a, rest)"
  by (simp add: readHexWord_def readHexByte_hex_text bytes_join)


lemma append_data_eq:
  "append_data buf s bs = (buf @ concat (map hex_text bs), s + sum_list bs)"
  by (induction bs arbitrary: buf s) (simp_all add: appendHexByte_def hex_text_def add.assoc)

lemma WritePacket_buf_text:
  "WritePacket_buf p =
     0x3A # hex_text (of_nat (length (Data p))) @ hex_text (ucast (drop_bit 8 (Address p)))
       @ hex_text (ucast (Address p)) @ hex_text (Type p) @ concat (map hex_text (Data p))
       @ hex_text (- record_sum p) @ [0x0A]"
  by (simp add: WritePacket_buf_def appendHexByte_def append_data_eq hex_text_def record_sum_def)

lemma read_payload_hex_text:
  "read_payload (length bs) (concat (map hex_text bs) @ rest) s acc
     = Inr (acc @ bs, s + sum_list bs, rest)"
  by (induction bs arbitrary: s acc) (simp_all add: readHexByte_hex_text add.assoc)

lemma skip_prefix_colon: "skip_prefix (0x3A # rest) = Inr rest"
  by simp

lemma unat_length_byte: "n \<le> 255 \<Longrightarrow> unat (of_nat n :: byte) = n"
  by (simp add: unat_of_nat)

lemma ReadPacket_WritePacket_buf:
  assumes "length (Data p) \<le> 255"
  shows "ReadPacket (WritePacket_buf p @ rest) = Inr (p, rest)"
proof -
  have n: "unat (of_nat (length (Data p)) :: byte) = length (Data p)"
    using assms by (rule unat_length_byte)
  have pl: "read_payload (length (Data p))
              (concat (map hex_text (Data p)) @ hex_text (- record_sum p) @ 0x0A # rest)
              (of_nat (length (Data p)) + ucast (drop_bit 8 (Address p)) + ucast (Address p)
                 + Type p) []
            = Inr (Data p, record_sum p, hex_text (- record_sum p) @ 0x0A # rest)"
    using read_payload_hex_text [of "Data p" "hex_text (- record_sum p) @ 0x0A # rest"]
    by (simp add: record_sum_def)
  show ?thesis
    unfolding WritePacket_buf_text ReadPacket_def
    by (simp add: readHexByte_hex_text readHexWord_hex_text n pl)
qed

lemma unat_minus_byte: "unat (- s :: byte) = (0x100 - unat s) mod 0x100"
proof -
  have "unat (0 - s) = (if unat s \<le> 0 then 0 - unat s else 0 + 2 ^ 8 - unat s)"
    using unat_sub_if' [of 0 s] by simp
  moreover have "unat s < 256" using unsigned_less [of s, where ?'a = nat] by simp
  moreover have "s \<noteq> 0 \<Longrightarrow> 0 < unat s" by (simp add: unat_gt_0)
  ultimately show ?thesis by (cases "s = 0") auto
qed

text \<open>
  C1. A packet whose payload length fits in one byte is read back from the text that
  \<open>WritePacket\<close> writes for it, with whatever follows the text left in the reader. The
  text is the colon, the length, the two address bytes, the type and the payload in hex,
  then the checksum, then a line feed; the checksum is the two's complement of the 8-bit
  sum of those bytes, \<open>(0x100 - sum) mod 0x100\<close>, and the reader accepts it.
\<close>

theorem WritePacket_ReadPacket_roundtrip:
  assumes "length (Data p) \<le> 255"
  shows "ReadPacket (WritePacket_buf p @ rest) = Inr (p, rest)
       \<and> (0 < room w \<longrightarrow>
            WritePacket w p = Inr (w\<lparr>taken := taken w @ [WritePacket_buf p], room := room w - 1\<rparr>))
       \<and> WritePacket_buf p =
            0x3A # hex_text (of_nat (length (Data p))) @ hex_text (ucast (drop_bit 8 (Address p)))
              @ hex_text (ucast (Address p)) @ hex_text (Type p) @ concat (map hex_text (Data p))
              @ hex_text (- record_sum p) @ [0x0A]
       \<and> unat (- record_sum p) = (0x100 - unat (record_sum p)) mod 0x100
       \<and> readHexByte (hex_text (- record_sum p) @ [0x0A]) = Inr (- record_sum p, [0x0A])"
  using assms
  by (simp add: ReadPacket_WritePacket_buf WritePacket_buf_text [symmetric] unat_minus_byte
      WritePacket_def sink_Write_def readHexByte_hex_text)

theorem WritePacket_ReadPacket_roundtrip_witness:
  "WritePacket_buf \<lparr>Type = 0, Address = 0x10, Data = [0xAA]\<rparr>
     = [0x3A, 0x30, 0x31, 0x30, 0x30, 0x31, 0x30, 0x30, 0x30, 0x41, 0x41, 0x34, 0x35, 0x0A]
   \<and> ReadPacket [0x3A, 0x30, 0x31, 0x30, 0x30, 0x31, 0x30, 0x30, 0x30, 0x41, 0x41, 0x34, 0x35, 0x0A]
     = Inr (\<lparr>Type = 0, Address = 0x10, Data = [0xAA]\<rparr>, [])
   \<and> - record_sum \<lparr>Type = 0, Address = 0x10, Data = [0xAA]\<rparr> = 0x45"
proof -
  let ?p = "\<lparr>Type = 0, Address = 0x10, Data = [0xAA]\<rparr>"
  have t: "WritePacket_buf ?p
     = [0x3A, 0x30, 0x31, 0x30, 0x30, 0x31, 0x30, 0x30, 0x30, 0x41, 0x41, 0x34, 0x35, 0x0A]"
    by (simp add: WritePacket_buf_def appendHexByte_def hlut_def)
  have l: "length (Data ?p) \<le> 255" by simp
  have s: "- record_sum ?p = 0x45" by (simp add: record_sum_def)
  from WritePacket_ReadPacket_roundtrip [OF l, of "[]"] t s show ?thesis by simp
qed

end
